theory Spec2Isabelle
  imports Complex_Main
begin

section \<open>The file system seen by the cleaner\<close>

text \<open>
  \<^verbatim>\<open>python-cleaner.py\<close> talks to the operating system through \<^verbatim>\<open>os\<close>,
  \<^verbatim>\<open>os.path\<close> and \<^verbatim>\<open>shutil\<close>. The file system is modelled as a tree. A path
  is the list of its components below the root of the tree, so that
  \<^verbatim>\<open>os.path.join(root, name)\<close> is \<open>root @ [name]\<close>. A directory holds its entries in
  the order in which \<^verbatim>\<open>os.scandir\<close> lists them. The names in a directory are
  distinct; the scanner only reads the tree, and the cleaner changes it.

  Besides regular files and directories the tree has three kinds of entries on which the
  calls of the program fail:
  \<^item> \<open>Locked\<close>: a directory that may not be read; listing it or going through it raises
    \<^verbatim>\<open>PermissionError\<close>;
  \<^item> \<open>Denied\<close>: an entry whose status cannot be read (a symbolic link into a directory
    without search permission); every \<^verbatim>\<open>stat\<close> of it raises \<^verbatim>\<open>PermissionError\<close>;
  \<^item> \<open>Dangling\<close>: a symbolic link whose target is gone; a \<^verbatim>\<open>stat\<close> of it raises
    \<^verbatim>\<open>FileNotFoundError\<close>.
  Symbolic links to directories are not modelled.
\<close>

type_synonym path = "string list"

datatype node =
    File nat real \<comment> \<open>a regular file: \<^verbatim>\<open>st_size\<close> and \<^verbatim>\<open>st_atime\<close>\<close>
  | Dir "(string \<times> node) list"
  | Locked
  | Denied
  | Dangling

text \<open>The Python exceptions that the modelled calls raise.\<close>

datatype exn =
    PermissionError
  | FileNotFoundError
  | NotADirectoryError
  | OSError
  | ValueError
  | RecursionError

text \<open>\<^verbatim>\<open>except (PermissionError, FileNotFoundError, OSError)\<close> catches the subclasses of
  \<^verbatim>\<open>OSError\<close>.\<close>

fun is_OSError :: "exn \<Rightarrow> bool" where
  "is_OSError PermissionError = True"
| "is_OSError FileNotFoundError = True"
| "is_OSError NotADirectoryError = True"
| "is_OSError OSError = True"
| "is_OSError ValueError = False"
| "is_OSError RecursionError = False"

text \<open>\<^verbatim>\<open>os.stat(path)\<close>, following links: the node the path resolves to, or the error.\<close>

fun os_stat :: "node \<Rightarrow> path \<Rightarrow> exn + node" where
  "os_stat Denied [] = Inl PermissionError"
| "os_stat Dangling [] = Inl FileNotFoundError"
| "os_stat n [] = Inr n"
| "os_stat (Dir es) (c # cs) =
     (case map_of es c of None \<Rightarrow> Inl FileNotFoundError | Some m \<Rightarrow> os_stat m cs)"
| "os_stat (File s a) (c # cs) = Inl NotADirectoryError"
| "os_stat Locked (c # cs) = Inl PermissionError"
| "os_stat Denied (c # cs) = Inl PermissionError"
| "os_stat Dangling (c # cs) = Inl FileNotFoundError"

text \<open>\<^verbatim>\<open>os.path.exists\<close>, \<^verbatim>\<open>os.path.isfile\<close> and \<^verbatim>\<open>os.path.isdir\<close> answer \<open>False\<close>
  when the \<^verbatim>\<open>stat\<close> fails.\<close>

definition exists :: "node \<Rightarrow> path \<Rightarrow> bool" where
  "exists fs p = (case os_stat fs p of Inl e \<Rightarrow> False | Inr n \<Rightarrow> True)"

definition isfile :: "node \<Rightarrow> path \<Rightarrow> bool" where
  "isfile fs p = (case os_stat fs p of Inr (File s a) \<Rightarrow> True | _ \<Rightarrow> False)"

definition isdir :: "node \<Rightarrow> path \<Rightarrow> bool" where
  "isdir fs p = (case os_stat fs p of Inr (Dir es) \<Rightarrow> True | Inr Locked \<Rightarrow> True | _ \<Rightarrow> False)"

text \<open>\<^verbatim>\<open>os.path.getsize\<close> raises what \<^verbatim>\<open>os.stat\<close> raises. The size of the inode of a
  directory is not modelled (the scanner asks for the size of non-directories only).\<close>

definition getsize :: "node \<Rightarrow> path \<Rightarrow> exn + nat" where
  "getsize fs p =
     (case os_stat fs p of Inl e \<Rightarrow> Inl e | Inr (File s a) \<Rightarrow> Inr s | Inr n \<Rightarrow> Inr 0)"

text \<open>\<^verbatim>\<open>os.scandir\<close> of a node, and the methods of the \<^verbatim>\<open>DirEntry\<close> objects it yields.
  \<^verbatim>\<open>is_file\<close> and \<^verbatim>\<open>is_dir\<close> catch \<^verbatim>\<open>FileNotFoundError\<close> themselves and let every
  other \<^verbatim>\<open>OSError\<close> through.\<close>

fun scandir :: "node \<Rightarrow> exn + (string \<times> node) list" where
  "scandir (Dir es) = Inr es"
| "scandir (File s a) = Inl NotADirectoryError"
| "scandir Locked = Inl PermissionError"
| "scandir Denied = Inl PermissionError"
| "scandir Dangling = Inl FileNotFoundError"

fun entry_is_file :: "node \<Rightarrow> exn + bool" where
  "entry_is_file (File s a) = Inr True"
| "entry_is_file (Dir es) = Inr False"
| "entry_is_file Locked = Inr False"
| "entry_is_file Denied = Inl PermissionError"
| "entry_is_file Dangling = Inr False"

fun entry_is_dir :: "node \<Rightarrow> exn + bool" where
  "entry_is_dir (File s a) = Inr False"
| "entry_is_dir (Dir es) = Inr True"
| "entry_is_dir Locked = Inr True"
| "entry_is_dir Denied = Inl PermissionError"
| "entry_is_dir Dangling = Inr False"

fun entry_stat_size :: "node \<Rightarrow> exn + nat" where
  "entry_stat_size (File s a) = Inr s"
| "entry_stat_size (Dir es) = Inr 0"
| "entry_stat_size Locked = Inr 0"
| "entry_stat_size Denied = Inl PermissionError"
| "entry_stat_size Dangling = Inl FileNotFoundError"

text \<open>\<^verbatim>\<open>os.listdir(path)\<close>.\<close>

definition listdir :: "node \<Rightarrow> path \<Rightarrow> exn + string list" where
  "listdir fs p =
     (case os_stat fs p of
        Inl e \<Rightarrow> Inl e
      | Inr n \<Rightarrow> (case scandir n of Inl e \<Rightarrow> Inl e | Inr es \<Rightarrow> Inr (map fst es)))"

subsection \<open>\<^verbatim>\<open>os.walk\<close>\<close>

text \<open>
  \<^verbatim>\<open>os.walk(top)\<close>, top-down and without \<^verbatim>\<open>onerror\<close>: a directory that cannot be
  listed yields nothing; an entry is in \<^verbatim>\<open>dirs\<close> when its \<^verbatim>\<open>is_dir()\<close> is true and
  in \<^verbatim>\<open>files\<close> otherwise, also when \<^verbatim>\<open>is_dir()\<close> raises. The scanner never edits
  \<^verbatim>\<open>dirs\<close> (it only iterates over the copy \<^verbatim>\<open>dirs[:]\<close>), so the walk enters every
  directory.
\<close>

type_synonym triple = "path \<times> string list \<times> string list"

definition walk_is_dir :: "node \<Rightarrow> bool" where
  "walk_is_dir n = (case entry_is_dir n of Inl e \<Rightarrow> False | Inr b \<Rightarrow> b)"

definition dirs_of :: "(string \<times> node) list \<Rightarrow> string list" where
  "dirs_of es = map fst (filter (\<lambda>e. walk_is_dir (snd e)) es)"

definition nondirs_of :: "(string \<times> node) list \<Rightarrow> string list" where
  "nondirs_of es = map fst (filter (\<lambda>e. \<not> walk_is_dir (snd e)) es)"

fun walk :: "path \<Rightarrow> node \<Rightarrow> triple list"
  and walk_dirs :: "path \<Rightarrow> (string \<times> node) list \<Rightarrow> triple list" where
  "walk tp (Dir es) = (tp, dirs_of es, nondirs_of es) # walk_dirs tp es"
| "walk tp (File s a) = []"
| "walk tp Locked = []"
| "walk tp Denied = []"
| "walk tp Dangling = []"
| "walk_dirs tp [] = []"
| "walk_dirs tp ((name, n) # es) =
     (if walk_is_dir n then walk (tp @ [name]) n else []) @ walk_dirs tp es"

definition os_walk :: "node \<Rightarrow> path \<Rightarrow> triple list" where
  "os_walk fs tp = (case os_stat fs tp of Inl e \<Rightarrow> [] | Inr n \<Rightarrow> walk tp n)"

subsection \<open>\<^verbatim>\<open>Scanner._get_dir_size\<close>\<close>

text \<open>
  The \<^verbatim>\<open>try\<close> of \<^verbatim>\<open>_get_dir_size\<close> is around the whole loop over the entries: an
  exception raised for one entry ends the loop, and the function returns what it had
  added up so far when the exception is a \<^verbatim>\<open>PermissionError\<close> or a
  \<^verbatim>\<open>FileNotFoundError\<close>. The loop returns the running total \<open>tot\<close> and the pending exception.
\<close>

definition swallowed :: "exn \<Rightarrow> bool" where
  "swallowed e = (e = PermissionError \<or> e = FileNotFoundError)"

fun get_dir_size :: "node \<Rightarrow> exn + nat"
  and get_dir_size_loop :: "(string \<times> node) list \<Rightarrow> nat \<Rightarrow> nat \<times> exn option" where
  "get_dir_size (Dir es) =
     (case get_dir_size_loop es 0 of
        (tot, None) \<Rightarrow> Inr tot
      | (tot, Some e) \<Rightarrow> if swallowed e then Inr tot else Inl e)"
| "get_dir_size (File s a) = Inl NotADirectoryError"
| "get_dir_size Locked = Inr 0"
| "get_dir_size Denied = Inr 0"
| "get_dir_size Dangling = Inr 0"
| "get_dir_size_loop [] tot = (tot, None)"
| "get_dir_size_loop ((name, n) # es) tot =
     (case entry_is_file n of
        Inl e \<Rightarrow> (tot, Some e)
      | Inr True \<Rightarrow>
          (case entry_stat_size n of
             Inl e \<Rightarrow> (tot, Some e)
           | Inr s \<Rightarrow> get_dir_size_loop es (tot + s))
      | Inr False \<Rightarrow>
          (case entry_is_dir n of
             Inl e \<Rightarrow> (tot, Some e)
           | Inr True \<Rightarrow>
               (case get_dir_size n of
                  Inl e \<Rightarrow> (tot, Some e)
                | Inr s \<Rightarrow> get_dir_size_loop es (tot + s))
           | Inr False \<Rightarrow> get_dir_size_loop es tot))"

text \<open>\<^verbatim>\<open>self._get_dir_size(path)\<close> for a path: a path that does not resolve raises inside
  the \<^verbatim>\<open>try\<close>, and the total is still 0.\<close>

definition get_dir_size_at :: "node \<Rightarrow> path \<Rightarrow> exn + nat" where
  "get_dir_size_at fs p =
     (case os_stat fs p of
        Inl e \<Rightarrow> if swallowed e then Inr 0 else Inl e
      | Inr n \<Rightarrow> get_dir_size n)"

section \<open>Signals and worker state\<close>

text \<open>
  The workers report through the signals of \<^verbatim>\<open>SignalBridge\<close>; a run is
  observed as the list of the signals it emitted, in order. A log message is kept as its
  kind and the values formatted into it, not as the rendered text. The categories are the
  type names \<^verbatim>\<open>"pycache"\<close>, \<^verbatim>\<open>"pyc"\<close>, \<^verbatim>\<open>"venv"\<close>, \<^verbatim>\<open>"jupyter"\<close>,
  \<^verbatim>\<open>"temp"\<close> and \<^verbatim>\<open>"build"\<close>.

  \<^verbatim>\<open>progress_signal\<close> carries \<^verbatim>\<open>int((current_count / total_count) * 100)\<close>, which
  the program computes in floating point; the event keeps the two counts instead.
  The last argument of the two finished signals is a \<^verbatim>\<open>float\<close>; it is modelled as a
  real number (the division by \<^verbatim>\<open>1024 * 1024\<close> is a division by a power of two).
\<close>

datatype category = Pycache | Pyc | Venv | Jupyter | Temp | Build

datatype level = Info | Warning | Error

datatype message =
    ScanStart
  | PathMissing path
  | NoValidPaths
  | ScanPath path
  | ScanDone nat nat
  | ScanError exn
  | CleanStart
  | DeletingDir path
  | DeletingFile path
  | CleanItemError path exn
  | CleanDone nat nat
  | CleanError exn

datatype event =
    Log message level
  | FoundItem path category nat bool
  | ScanFinished bool nat real
  | Progress nat nat
  | CleanProgress nat nat path
  | CleanFinished bool nat real

text \<open>
  Both workers have the flag \<^verbatim>\<open>self.running\<close>, which \<^verbatim>\<open>stop()\<close> clears from the
  other thread. The worker only reads it, at the head of its loops. A run is given the
  number of reads that still see \<open>True\<close>: \<open>Some k\<close> when \<^verbatim>\<open>stop()\<close> falls between the
  \<open>k\<close>-th read and the next one, \<open>None\<close> when \<^verbatim>\<open>stop()\<close> is never called. The state
  counts the reads.
\<close>

record worker =
  events :: "event list"
  checks :: nat

record scanner = worker +
  total_items :: nat
  total_size :: nat

definition emit :: "event \<Rightarrow> 'a worker_scheme \<Rightarrow> 'a worker_scheme" where
  "emit e st = st\<lparr>events := events st @ [e]\<rparr>"

definition running :: "nat option \<Rightarrow> 'a worker_scheme \<Rightarrow> bool" where
  "running stop st = (case stop of None \<Rightarrow> True | Some k \<Rightarrow> checks st < k)"

definition tick :: "'a worker_scheme \<Rightarrow> 'a worker_scheme" where
  "tick st = st\<lparr>checks := checks st + 1\<rparr>"

section \<open>\<^verbatim>\<open>Scanner.run\<close>\<close>

text \<open>The dictionary \<^verbatim>\<open>scan_options\<close>; \<^verbatim>\<open>start_scan\<close> always fills in all seven keys,
  so the defaults of \<^verbatim>\<open>.get\<close> are never used.\<close>

record scan_options =
  pycache :: bool
  pyc_files :: bool
  venv :: bool
  venv_days :: int
  jupyter :: bool
  temp_files :: bool
  build_dirs :: bool

text \<open>An exception leaves the \<^verbatim>\<open>try\<close> block with the local variables as they are, and
  the handler reads \<^verbatim>\<open>total_items\<close> and \<^verbatim>\<open>total_size\<close>: a failing step returns the
  exception and the state.\<close>

type_synonym 's outcome = "(exn \<times> 's) + 's"

text \<open>\<^verbatim>\<open>total_items += 1; total_size += size; found_item_signal.emit(...)\<close>\<close>

definition found_item :: "path \<Rightarrow> category \<Rightarrow> nat \<Rightarrow> bool \<Rightarrow> scanner \<Rightarrow> scanner" where
  "found_item p c sz checked st =
     emit (FoundItem p c sz checked)
       (st\<lparr>total_items := total_items st + 1, total_size := total_size st + sz\<rparr>)"

text \<open>The loops of the rules 1, 4 and 6 over \<^verbatim>\<open>dirs[:]\<close> differ in the test of the name
  and in the arguments of the signal, and the loops of the rules 2 and 5 over
  \<^verbatim>\<open>files\<close> likewise.\<close>

fun scan_dirs ::
  "node \<Rightarrow> (string \<Rightarrow> bool) \<Rightarrow> category \<Rightarrow> bool \<Rightarrow> path \<Rightarrow> string list \<Rightarrow> scanner \<Rightarrow> scanner outcome"
where
  "scan_dirs fs m c checked r [] st = Inr st"
| "scan_dirs fs m c checked r (dir_name # ds) st =
     (if m dir_name then
        (case get_dir_size_at fs (r @ [dir_name]) of
           Inl e \<Rightarrow> Inl (e, st)
         | Inr sz \<Rightarrow>
             scan_dirs fs m c checked r ds (found_item (r @ [dir_name]) c sz checked st))
      else scan_dirs fs m c checked r ds st)"

fun scan_files ::
  "node \<Rightarrow> (string \<Rightarrow> bool) \<Rightarrow> category \<Rightarrow> bool \<Rightarrow> path \<Rightarrow> string list \<Rightarrow> scanner \<Rightarrow> scanner outcome"
where
  "scan_files fs m c checked r [] st = Inr st"
| "scan_files fs m c checked r (file_name # fls) st =
     (if m file_name then
        (case getsize fs (r @ [file_name]) of
           Inl e \<Rightarrow> Inl (e, st)
         | Inr sz \<Rightarrow>
             scan_files fs m c checked r fls (found_item (r @ [file_name]) c sz checked st))
      else scan_files fs m c checked r fls st)"

text \<open>\<^verbatim>\<open>str.endswith\<close>\<close>

definition endswith :: "string \<Rightarrow> string \<Rightarrow> bool" where
  "endswith s suf = (length suf \<le> length s \<and> drop (length s - length suf) s = suf)"

text \<open>Rule 1: \<^verbatim>\<open>dir_name == "__pycache__"\<close>.\<close>

definition rule_pycache :: "node \<Rightarrow> scan_options \<Rightarrow> triple \<Rightarrow> scanner \<Rightarrow> scanner outcome" where
  "rule_pycache fs opts t st =
     (case t of (r, dirs, files) \<Rightarrow>
        if pycache opts
        then scan_dirs fs (\<lambda>d. d = ''__pycache__'') Pycache True r dirs st
        else Inr st)"

text \<open>Rule 2: \<^verbatim>\<open>file_name.endswith(".pyc")\<close>.\<close>

definition rule_pyc :: "node \<Rightarrow> scan_options \<Rightarrow> triple \<Rightarrow> scanner \<Rightarrow> scanner outcome" where
  "rule_pyc fs opts t st =
     (case t of (r, dirs, files) \<Rightarrow>
        if pyc_files opts
        then scan_files fs (\<lambda>f. endswith f ''.pyc'') Pyc True r files st
        else Inr st)"

text \<open>Rule 3: the directory being walked is a virtual environment when one of the
  markers exists in it, in its \<^verbatim>\<open>bin\<close> or in its \<^verbatim>\<open>Scripts\<close>. Its last access is
  \<^verbatim>\<open>max\<close> over the access times of the regular files directly in it; \<^verbatim>\<open>max\<close> of an
  empty sequence raises \<^verbatim>\<open>ValueError\<close>. The current time \<open>now\<close> is
  \<^verbatim>\<open>time.time()\<close>.\<close>

definition venv_markers :: "string list" where
  "venv_markers = [''pyvenv.cfg'', ''activate'', ''python.exe'', ''pip.exe'']"

definition is_venv :: "node \<Rightarrow> path \<Rightarrow> bool" where
  "is_venv fs r =
     list_ex (\<lambda>marker. exists fs (r @ [marker]) \<or> exists fs (r @ [''bin'', marker])
                       \<or> exists fs (r @ [''Scripts'', marker])) venv_markers"

definition file_atimes :: "node \<Rightarrow> path \<Rightarrow> string list \<Rightarrow> real list" where
  "file_atimes fs r names =
     concat (map (\<lambda>f. case os_stat fs (r @ [f]) of Inr (File s a) \<Rightarrow> [a] | _ \<Rightarrow> []) names)"

definition py_max :: "real list \<Rightarrow> exn + real" where
  "py_max xs = (case xs of [] \<Rightarrow> Inl ValueError | x # ys \<Rightarrow> Inr (fold max ys x))"

definition last_access_time :: "node \<Rightarrow> path \<Rightarrow> exn + real" where
  "last_access_time fs r =
     (case listdir fs r of Inl e \<Rightarrow> Inl e | Inr names \<Rightarrow> py_max (file_atimes fs r names))"

definition rule_venv ::
  "node \<Rightarrow> scan_options \<Rightarrow> real \<Rightarrow> triple \<Rightarrow> scanner \<Rightarrow> scanner outcome" where
  "rule_venv fs opts now t st =
     (case t of (r, dirs, files) \<Rightarrow>
        if venv opts \<and> is_venv fs r then
          (case last_access_time fs r of
             Inl e \<Rightarrow> Inl (e, st)
           | Inr last_access \<Rightarrow>
               if (now - last_access) / (60 * 60 * 24) > real_of_int (venv_days opts) then
                 (case get_dir_size_at fs r of
                    Inl e \<Rightarrow> Inl (e, st)
                  | Inr sz \<Rightarrow> Inr (found_item r Venv sz False st))
               else Inr st)
        else Inr st)"

text \<open>Rule 4: \<^verbatim>\<open>dir_name == ".ipynb_checkpoints"\<close>.\<close>

definition rule_jupyter :: "node \<Rightarrow> scan_options \<Rightarrow> triple \<Rightarrow> scanner \<Rightarrow> scanner outcome" where
  "rule_jupyter fs opts t st =
     (case t of (r, dirs, files) \<Rightarrow>
        if jupyter opts
        then scan_dirs fs (\<lambda>d. d = ''.ipynb_checkpoints'') Jupyter True r dirs st
        else Inr st)"

text \<open>Rule 5: \<^verbatim>\<open>file_name.endswith((".pyc.tmp", ".py~", ".pyo"))\<close>.\<close>

definition rule_temp :: "node \<Rightarrow> scan_options \<Rightarrow> triple \<Rightarrow> scanner \<Rightarrow> scanner outcome" where
  "rule_temp fs opts t st =
     (case t of (r, dirs, files) \<Rightarrow>
        if temp_files opts
        then scan_files fs
               (\<lambda>f. endswith f ''.pyc.tmp'' \<or> endswith f ''.py~'' \<or> endswith f ''.pyo'')
               Temp True r files st
        else Inr st)"

text \<open>Rule 6: \<^verbatim>\<open>dir_name in ["build", "dist", "*.egg-info"]\<close>, a membership test in a
  list of three strings.\<close>

definition rule_build :: "node \<Rightarrow> scan_options \<Rightarrow> triple \<Rightarrow> scanner \<Rightarrow> scanner outcome" where
  "rule_build fs opts t st =
     (case t of (r, dirs, files) \<Rightarrow>
        if build_dirs opts
        then scan_dirs fs (\<lambda>d. d \<in> set [''build'', ''dist'', ''*.egg-info'']) Build True r dirs st
        else Inr st)"

text \<open>The statements of a block in sequence: the first exception ends the block.\<close>

fun run_rules :: "('s \<Rightarrow> 's outcome) list \<Rightarrow> 's \<Rightarrow> 's outcome" where
  "run_rules [] st = Inr st"
| "run_rules (f # fs) st = (case f st of Inl x \<Rightarrow> Inl x | Inr st' \<Rightarrow> run_rules fs st')"

definition check_dir ::
  "node \<Rightarrow> scan_options \<Rightarrow> real \<Rightarrow> triple \<Rightarrow> scanner \<Rightarrow> scanner outcome" where
  "check_dir fs opts now t =
     run_rules [rule_pycache fs opts t, rule_pyc fs opts t, rule_venv fs opts now t,
                rule_jupyter fs opts t, rule_temp fs opts t, rule_build fs opts t]"

text \<open>The first loop over \<^verbatim>\<open>os.walk(base_path)\<close> counts the entries, the second one
  checks every directory. Each reads the flag once for every triple the walk yields.\<close>

fun count_walk :: "nat option \<Rightarrow> triple list \<Rightarrow> nat \<Rightarrow> scanner \<Rightarrow> nat \<times> scanner" where
  "count_walk stop [] total_count st = (total_count, st)"
| "count_walk stop ((r, dirs, files) # ts) total_count st =
     (if \<not> running stop st then (total_count, tick st)
      else count_walk stop ts (total_count + length dirs + length files) (tick st))"

fun scan_walk ::
  "node \<Rightarrow> scan_options \<Rightarrow> real \<Rightarrow> nat option \<Rightarrow> nat \<Rightarrow> triple list \<Rightarrow> nat \<Rightarrow> scanner
     \<Rightarrow> scanner outcome"
where
  "scan_walk fs opts now stop total_count [] current_count st = Inr st"
| "scan_walk fs opts now stop total_count ((r, dirs, files) # ts) current_count st =
     (if \<not> running stop st then Inr (tick st)
      else
        let st1 = tick st;
            current_count' = current_count + length dirs + length files;
            st2 = (if total_count > 0 then emit (Progress current_count' total_count) st1
                   else st1)
        in case check_dir fs opts now (r, dirs, files) st2 of
             Inl x \<Rightarrow> Inl x
           | Inr st3 \<Rightarrow> scan_walk fs opts now stop total_count ts current_count' st3)"

text \<open>\<^verbatim>\<open>for base_path in paths_to_scan\<close>: a \<^verbatim>\<open>break\<close> leaves the loop over the walk
  only, and the loop over the paths goes on to the next path.\<close>

fun scan_paths ::
  "node \<Rightarrow> scan_options \<Rightarrow> real \<Rightarrow> nat option \<Rightarrow> path list \<Rightarrow> scanner \<Rightarrow> scanner outcome"
where
  "scan_paths fs opts now stop [] st = Inr st"
| "scan_paths fs opts now stop (base_path # rest) st =
     (let st1 = emit (Log (ScanPath base_path) Info) st;
          (total_count, st2) = count_walk stop (os_walk fs base_path) 0 st1
      in case scan_walk fs opts now stop total_count (os_walk fs base_path) 0 st2 of
           Inl x \<Rightarrow> Inl x
         | Inr st3 \<Rightarrow> scan_paths fs opts now stop rest st3)"

text \<open>The loop that fills \<^verbatim>\<open>paths_to_scan\<close>.\<close>

fun valid_paths :: "node \<Rightarrow> path list \<Rightarrow> path list \<Rightarrow> scanner \<Rightarrow> path list \<times> scanner" where
  "valid_paths fs [] paths_to_scan st = (paths_to_scan, st)"
| "valid_paths fs (p # ps) paths_to_scan st =
     (if exists fs p then valid_paths fs ps (paths_to_scan @ [p]) st
      else valid_paths fs ps paths_to_scan (emit (Log (PathMissing p) Warning) st))"

definition scanner_init :: scanner where
  "scanner_init = \<lparr>events = [], checks = 0, total_items = 0, total_size = 0\<rparr>"

text \<open>The rest of the \<^verbatim>\<open>try\<close> block once \<^verbatim>\<open>paths_to_scan\<close> is not empty.\<close>

definition scan_valid ::
  "node \<Rightarrow> scan_options \<Rightarrow> real \<Rightarrow> nat option \<Rightarrow> path list \<Rightarrow> scanner \<Rightarrow> scanner outcome"
where
  "scan_valid fs opts now stop paths_to_scan st =
     (case scan_paths fs opts now stop paths_to_scan st of
        Inl x \<Rightarrow> Inl x
      | Inr st3 \<Rightarrow>
          Inr (emit (ScanFinished True (total_items st3) (real (total_size st3) / (1024 * 1024)))
                 (emit (Log (ScanDone (total_items st3) (total_size st3)) Info) st3)))"

definition scan_try ::
  "node \<Rightarrow> path list \<Rightarrow> scan_options \<Rightarrow> real \<Rightarrow> nat option \<Rightarrow> scanner outcome" where
  "scan_try fs scan_paths_arg opts now stop =
     (let st1 = emit (Log ScanStart Info) scanner_init;
          (paths_to_scan, st2) = valid_paths fs scan_paths_arg [] st1
      in if paths_to_scan = [] then
           Inr (emit (ScanFinished False 0 0) (emit (Log NoValidPaths Error) st2))
         else scan_valid fs opts now stop paths_to_scan st2)"

text \<open>\<^verbatim>\<open>except Exception as e\<close>: the handler logs the error and emits the finished
  signal with \<^verbatim>\<open>total_size\<close> itself.\<close>

definition scan_except :: "exn \<times> scanner \<Rightarrow> scanner" where
  "scan_except x =
     (case x of (e, st) \<Rightarrow>
        emit (ScanFinished False (total_items st) (real (total_size st)))
          (emit (Log (ScanError e) Error) st))"

definition Scanner_run ::
  "node \<Rightarrow> path list \<Rightarrow> scan_options \<Rightarrow> real \<Rightarrow> nat option \<Rightarrow> scanner" where
  "Scanner_run fs scan_paths_arg opts now stop =
     (case scan_try fs scan_paths_arg opts now stop of
        Inl x \<Rightarrow> scan_except x
      | Inr st \<Rightarrow> st)"

text \<open>What the user interface collects from a run: the candidates
  (\<^verbatim>\<open>add_found_item\<close>) and the finished signal.\<close>

fun candidates :: "event list \<Rightarrow> (path \<times> category \<times> nat \<times> bool) list" where
  "candidates [] = []"
| "candidates (FoundItem p c sz checked # evs) = (p, c, sz, checked) # candidates evs"
| "candidates (e # evs) = candidates evs"

section \<open>\<^verbatim>\<open>Cleaner.run\<close>\<close>

text \<open>
  Deleting changes the tree. \<open>unlink\<close> takes the entry at a path out of its directory.
  What \<^verbatim>\<open>shutil.rmtree\<close> or \<^verbatim>\<open>os.remove\<close> raises for a path is an input of the
  run, \<open>flt\<close>: a missing permission (\<^verbatim>\<open>PermissionError\<close>), or a tree too deep for the
  recursion of \<^verbatim>\<open>shutil.rmtree\<close> (\<^verbatim>\<open>RecursionError\<close>, which is not an
  \<^verbatim>\<open>OSError\<close>). A deletion that raises leaves the tree as it was. The root of the tree
  has no parent to be taken out of: \<^verbatim>\<open>rmtree\<close> empties it and then raises.
\<close>

fun unlink :: "node \<Rightarrow> path \<Rightarrow> node" where
  "unlink (Dir es) [c] = Dir (filter (\<lambda>e. fst e \<noteq> c) es)"
| "unlink (Dir es) (c # c' # cs) =
     Dir (map (\<lambda>e. if fst e = c then (fst e, unlink (snd e) (c' # cs)) else e) es)"
| "unlink n p = n"

type_synonym faults = "path \<Rightarrow> exn option"

definition rmtree :: "faults \<Rightarrow> node \<Rightarrow> path \<Rightarrow> exn option \<times> node" where
  "rmtree flt fs p =
     (case flt p of
        Some e \<Rightarrow> (Some e, fs)
      | None \<Rightarrow> if p = [] then (Some OSError, Dir []) else (None, unlink fs p))"

definition os_remove :: "faults \<Rightarrow> node \<Rightarrow> path \<Rightarrow> exn option \<times> node" where
  "os_remove flt fs p =
     (case flt p of
        Some e \<Rightarrow> (Some e, fs)
      | None \<Rightarrow> if p = [] then (Some OSError, fs) else (None, unlink fs p))"

record cleaner = worker +
  disk :: node
  total_size_cleaned :: nat
  items_cleaned :: nat

text \<open>An element of \<^verbatim>\<open>items_to_clean\<close>: \<^verbatim>\<open>(path, type_name, size)\<close>.\<close>

type_synonym item = "path \<times> category \<times> nat"

text \<open>The inner \<^verbatim>\<open>try\<close> up to the two additions: a path that is neither a directory
  nor a file takes neither branch and raises nothing.\<close>

definition delete_path :: "faults \<Rightarrow> path \<Rightarrow> cleaner \<Rightarrow> cleaner outcome" where
  "delete_path flt p st =
     (if isdir (disk st) p then
        (let st1 = emit (Log (DeletingDir p) Info) st
         in case rmtree flt (disk st1) p of
              (None, d) \<Rightarrow> Inr (st1\<lparr>disk := d\<rparr>)
            | (Some e, d) \<Rightarrow> Inl (e, st1\<lparr>disk := d\<rparr>))
      else if isfile (disk st) p then
        (let st1 = emit (Log (DeletingFile p) Info) st
         in case os_remove flt (disk st1) p of
              (None, d) \<Rightarrow> Inr (st1\<lparr>disk := d\<rparr>)
            | (Some e, d) \<Rightarrow> Inl (e, st1\<lparr>disk := d\<rparr>))
      else Inr st)"

fun clean_loop ::
  "faults \<Rightarrow> nat option \<Rightarrow> nat \<Rightarrow> nat \<Rightarrow> item list \<Rightarrow> cleaner \<Rightarrow> cleaner outcome" where
  "clean_loop flt stop n_items index [] st = Inr st"
| "clean_loop flt stop n_items index ((p, type_name, sz) # items) st =
     (if \<not> running stop st then Inr (tick st)
      else
        let st1 = emit (CleanProgress (index + 1) n_items p) (tick st)
        in case delete_path flt p st1 of
             Inr st2 \<Rightarrow>
               clean_loop flt stop n_items (index + 1) items
                 (st2\<lparr>total_size_cleaned := total_size_cleaned st2 + sz,
                      items_cleaned := items_cleaned st2 + 1\<rparr>)
           | Inl (e, st2) \<Rightarrow>
               if is_OSError e then
                 clean_loop flt stop n_items (index + 1) items
                   (emit (Log (CleanItemError p e) Error) st2)
               else Inl (e, st2))"

definition cleaner_init :: "node \<Rightarrow> cleaner" where
  "cleaner_init fs =
     \<lparr>events = [], checks = 0, disk = fs, total_size_cleaned = 0, items_cleaned = 0\<rparr>"

definition clean_try :: "faults \<Rightarrow> nat option \<Rightarrow> item list \<Rightarrow> node \<Rightarrow> cleaner outcome" where
  "clean_try flt stop items_to_clean fs =
     (let st1 = emit (Log CleanStart Info) (cleaner_init fs)
      in case clean_loop flt stop (length items_to_clean) 0 items_to_clean st1 of
           Inl x \<Rightarrow> Inl x
         | Inr st2 \<Rightarrow>
             Inr (emit (CleanFinished True (items_cleaned st2)
                          (real (total_size_cleaned st2) / (1024 * 1024)))
                    (emit (Log (CleanDone (items_cleaned st2) (total_size_cleaned st2)) Info)
                       st2)))"

definition clean_except :: "exn \<times> cleaner \<Rightarrow> cleaner" where
  "clean_except x =
     (case x of (e, st) \<Rightarrow>
        emit (CleanFinished False (items_cleaned st) (real (total_size_cleaned st)))
          (emit (Log (CleanError e) Error) st))"

definition Cleaner_run :: "faults \<Rightarrow> nat option \<Rightarrow> item list \<Rightarrow> node \<Rightarrow> cleaner" where
  "Cleaner_run flt stop items_to_clean fs =
     (case clean_try flt stop items_to_clean fs of
        Inl x \<Rightarrow> clean_except x
      | Inr st \<Rightarrow> st)"

definition no_faults :: faults where
  "no_faults = (\<lambda>p. None)"

section \<open>Notions used to state the properties\<close>

text \<open>The state an outcome carries, whether the block raised or not.\<close>

definition outcome_state :: "'s outcome \<Rightarrow> 's" where
  "outcome_state x = (case x of Inl (e, st) \<Rightarrow> st | Inr st \<Rightarrow> st)"

text \<open>A property of the scanner state that every step of the scanner keeps: reading the
  flag, emitting a signal other than \<^verbatim>\<open>found_item_signal\<close>, and reporting a candidate
  the way the six rules do.\<close>

definition step_closed :: "(scanner \<Rightarrow> bool) \<Rightarrow> bool" where
  "step_closed P =
     ((\<forall>st. P st \<longrightarrow> P (tick st))
      \<and> (\<forall>st e. P st \<longrightarrow> candidates [e] = [] \<longrightarrow> P (emit e st))
      \<and> (\<forall>st p c sz. P st \<longrightarrow> P (found_item p c sz (c \<noteq> Venv) st)))"

definition flags_ok :: "scanner \<Rightarrow> bool" where
  "flags_ok st =
     list_all (\<lambda>(p, c, sz, checked). checked = (c \<noteq> Venv)) (candidates (events st))"

definition counts_ok :: "scanner \<Rightarrow> bool" where
  "counts_ok st =
     (total_items st = length (candidates (events st))
      \<and> total_size st = sum_list (map (\<lambda>(p, c, sz, checked). sz) (candidates (events st))))"

text \<open>The sum of the sizes of all regular files in a tree, and the trees in which no
  entry raises when its type is tested.\<close>

fun files_total :: "node \<Rightarrow> nat"
  and files_total_list :: "(string \<times> node) list \<Rightarrow> nat" where
  "files_total (File s a) = s"
| "files_total (Dir es) = files_total_list es"
| "files_total Locked = 0"
| "files_total Denied = 0"
| "files_total Dangling = 0"
| "files_total_list [] = 0"
| "files_total_list ((name, n) # es) = files_total n + files_total_list es"

fun no_denied :: "node \<Rightarrow> bool"
  and no_denied_list :: "(string \<times> node) list \<Rightarrow> bool" where
  "no_denied (File s a) = True"
| "no_denied (Dir es) = no_denied_list es"
| "no_denied Locked = True"
| "no_denied Denied = False"
| "no_denied Dangling = True"
| "no_denied_list [] = True"
| "no_denied_list ((name, n) # es) = (no_denied n \<and> no_denied_list es)"

text \<open>Putting events in front of the events of a state, and changing the state an outcome
  carries; the warnings the scanner logs for the roots that do not exist.\<close>

definition prepend :: "event list \<Rightarrow> 'a worker_scheme \<Rightarrow> 'a worker_scheme" where
  "prepend evs st = st\<lparr>events := evs @ events st\<rparr>"

definition map_outcome :: "('s \<Rightarrow> 's) \<Rightarrow> 's outcome \<Rightarrow> 's outcome" where
  "map_outcome f x = (case x of Inl (e, st) \<Rightarrow> Inl (e, f st) | Inr st \<Rightarrow> Inr (f st))"

definition missing_warnings :: "node \<Rightarrow> path list \<Rightarrow> event list" where
  "missing_warnings fs ps =
     map (\<lambda>p. Log (PathMissing p) Warning) (filter (\<lambda>p. \<not> exists fs p) ps)"

text \<open>The rest of a run from the head of the loop over the walk, where the flag is read:
  the triples \<open>ts\<close> that the walk of the current path has yet to yield, then the paths
  \<open>rest\<close>, then the end of the \<^verbatim>\<open>try\<close> block or the handler.\<close>

definition scan_resume ::
  "node \<Rightarrow> scan_options \<Rightarrow> real \<Rightarrow> nat option \<Rightarrow> nat \<Rightarrow> triple list \<Rightarrow> nat \<Rightarrow> path list
     \<Rightarrow> scanner \<Rightarrow> scanner"
where
  "scan_resume fs opts now stop total_count ts current_count rest st =
     (case (case scan_walk fs opts now stop total_count ts current_count st of
              Inl x \<Rightarrow> Inl x
            | Inr st3 \<Rightarrow> scan_valid fs opts now stop rest st3) of
        Inl x \<Rightarrow> scan_except x
      | Inr st' \<Rightarrow> st')"

text \<open>The second state has the candidates and the totals of the first.\<close>

definition quiet :: "scanner \<Rightarrow> scanner \<Rightarrow> bool" where
  "quiet st st' =
     (candidates (events st') = candidates (events st) \<and> total_items st' = total_items st
      \<and> total_size st' = total_size st \<and> checks st \<le> checks st')"

section \<open>Concrete trees\<close>

text \<open>The tree of the end-to-end example: \<^verbatim>\<open>proj/__pycache__/a.pyc\<close> of 10 bytes and
  \<^verbatim>\<open>proj/module.pyc\<close> of 20 bytes, scanned with the rules \<^verbatim>\<open>pycache\<close> and
  \<^verbatim>\<open>pyc_files\<close> only.\<close>

definition tree_e2e :: node where
  "tree_e2e =
     Dir [(''proj'', Dir [(''__pycache__'', Dir [(''a.pyc'', File 10 0)]),
                          (''module.pyc'', File 20 0)])]"

definition opts_e2e :: scan_options where
  "opts_e2e = \<lparr>pycache = True, pyc_files = True, venv = False, venv_days = 30,
                jupyter = False, temp_files = False, build_dirs = False\<rparr>"

definition items_e2e :: "item list" where
  "items_e2e = [([''proj'', ''__pycache__''], Pycache, 10), ([''proj'', ''module.pyc''], Pyc, 20)]"

text \<open>Three confirmed items, the second of which is no longer on the disk.\<close>

definition tree_gone :: node where
  "tree_gone = Dir [(''a.pyc'', File 5 0), (''c.pyc'', File 7 0)]"

definition items_gone :: "item list" where
  "items_gone = [([''a.pyc''], Pyc, 5), ([''b.pyc''], Pyc, 6), ([''c.pyc''], Pyc, 7)]"

text \<open>A project with a \<^verbatim>\<open>build\<close> directory and a \<^verbatim>\<open>pkg.egg-info\<close> directory, scanned
  with the rule \<^verbatim>\<open>build_dirs\<close> only.\<close>

definition tree_egg :: node where
  "tree_egg =
     Dir [(''home'', Dir [(''pkg.egg-info'', Dir [(''PKG-INFO'', File 100 0)]),
                          (''build'', Dir [(''lib.py'', File 40 0)])])]"

definition opts_build :: scan_options where
  "opts_build = \<lparr>pycache = False, pyc_files = False, venv = False, venv_days = 30,
                  jupyter = False, temp_files = False, build_dirs = True\<rparr>"

text \<open>A virtual environment \<^verbatim>\<open>env\<close> whose only marker is \<^verbatim>\<open>env/bin/activate\<close> and
  which has no file of its own, walked before a directory \<^verbatim>\<open>old\<close> that holds a
  \<^verbatim>\<open>__pycache__\<close>; the rules \<^verbatim>\<open>pycache\<close> and \<^verbatim>\<open>venv\<close> are enabled.\<close>

definition tree_venv :: node where
  "tree_venv =
     Dir [(''home'', Dir [(''env'', Dir [(''bin'', Dir [(''activate'', File 50 0)])]),
                          (''old'', Dir [(''__pycache__'', Dir [(''m.pyc'', File 10 0)])])])]"

definition opts_venv :: scan_options where
  "opts_venv = \<lparr>pycache = True, pyc_files = False, venv = True, venv_days = 30,
                 jupyter = False, temp_files = False, build_dirs = False\<rparr>"

text \<open>A directory whose first entry raises \<^verbatim>\<open>PermissionError\<close> when its type is
  tested, followed by a file of 5 bytes; and a directory in which no entry does.\<close>

definition tree_link :: node where
  "tree_link = Dir [(''link'', Denied), (''b.pyc'', File 5 0)]"

definition tree_sizes :: node where
  "tree_sizes =
     Dir [(''a.py'', File 3 0), (''sub'', Dir [(''b.py'', File 4 0)]), (''locked'', Locked),
          (''dangling'', Dangling)]"

text \<open>A virtual environment of 300 bytes whose only direct file was last accessed at
  time 0, scanned with the rule \<^verbatim>\<open>venv\<close> only and a threshold of 30 days.\<close>

definition tree_stale :: node where
  "tree_stale =
     Dir [(''env'', Dir [(''pyvenv.cfg'', File 100 0),
                         (''lib'', Dir [(''site.py'', File 200 0)])])]"

definition opts_stale :: scan_options where
  "opts_stale = \<lparr>pycache = False, pyc_files = False, venv = True, venv_days = 30,
                  jupyter = False, temp_files = False, build_dirs = False\<rparr>"

text \<open>The state of the scan of the end-to-end example when the walk has dealt with
  \<^verbatim>\<open>proj\<close> and is about to yield \<^verbatim>\<open>proj/__pycache__\<close>.\<close>

definition st_e2e :: scanner where
  "st_e2e =
     \<lparr>events =
        [Log ScanStart Info, Log (ScanPath [''proj'']) Info, Progress 2 3,
         FoundItem [''proj'', ''__pycache__''] Pycache 10 True,
         FoundItem [''proj'', ''module.pyc''] Pyc 20 True],
      checks = 3, total_items = 2, total_size = 30\<rparr>"

text \<open>A scan that finds a file of 20 bytes and then reaches a virtual environment without
  a file of its own; a cleaning whose second deletion raises \<^verbatim>\<open>RecursionError\<close>.\<close>

definition tree_abort :: node where
  "tree_abort =
     Dir [(''home'', Dir [(''module.pyc'', File 20 0),
                          (''env'', Dir [(''bin'', Dir [(''activate'', File 50 0)])])])]"

definition opts_abort :: scan_options where
  "opts_abort = \<lparr>pycache = False, pyc_files = True, venv = True, venv_days = 30,
                  jupyter = False, temp_files = False, build_dirs = False\<rparr>"

definition tree_deep :: node where
  "tree_deep = Dir [(''a.pyc'', File 5 0), (''deep'', Dir [])]"

definition items_deep :: "item list" where
  "items_deep = [([''a.pyc''], Pyc, 5), ([''deep''], Pycache, 9)]"

definition faults_deep :: faults where
  "faults_deep = (\<lambda>p. if p = [''deep''] then Some RecursionError else None)"

section \<open>Runs on the concrete trees\<close>

lemmas scan_defs = Scanner_run_def scan_try_def scan_valid_def scan_except_def scanner_init_def
  emit_def tick_def running_def found_item_def check_dir_def rule_pycache_def rule_pyc_def
  rule_venv_def rule_jupyter_def rule_temp_def rule_build_def os_walk_def exists_def
  get_dir_size_at_def getsize_def dirs_of_def nondirs_of_def walk_is_dir_def endswith_def
  swallowed_def is_venv_def venv_markers_def last_access_time_def listdir_def file_atimes_def
  py_max_def

lemmas clean_defs = Cleaner_run_def clean_try_def clean_except_def cleaner_init_def
  delete_path_def emit_def tick_def running_def isdir_def isfile_def rmtree_def os_remove_def
  no_faults_def exists_def

lemma e2e_scan_run:
  "Scanner_run tree_e2e [[''proj'']] opts_e2e now None =
     \<lparr>events =
        [Log ScanStart Info, Log (ScanPath [''proj'']) Info, Progress 2 3,
         FoundItem [''proj'', ''__pycache__''] Pycache 10 True,
         FoundItem [''proj'', ''module.pyc''] Pyc 20 True, Progress 3 3,
         FoundItem [''proj'', ''__pycache__'', ''a.pyc''] Pyc 10 True,
         Log (ScanDone 3 40) Info, ScanFinished True 3 (40 / (1024 * 1024))],
      checks = 4, total_items = 3, total_size = 40\<rparr>"
  by (simp add: scan_defs tree_e2e_def opts_e2e_def)

lemma e2e_clean_run:
  "Cleaner_run no_faults None items_e2e tree_e2e =
     \<lparr>events =
        [Log CleanStart Info, CleanProgress 1 2 [''proj'', ''__pycache__''],
         Log (DeletingDir [''proj'', ''__pycache__'']) Info,
         CleanProgress 2 2 [''proj'', ''module.pyc''],
         Log (DeletingFile [''proj'', ''module.pyc'']) Info,
         Log (CleanDone 2 30) Info, CleanFinished True 2 (30 / (1024 * 1024))],
      checks = 2, disk = Dir [(''proj'', Dir [])], total_size_cleaned = 30,
      items_cleaned = 2\<rparr>"
  by (simp add: clean_defs tree_e2e_def items_e2e_def)

text \<open>
  C1, as the program behaves. The walk goes on into \<^verbatim>\<open>proj/__pycache__\<close> after the
  directory has been reported, and the rule for \<^verbatim>\<open>.pyc\<close> files reports \<^verbatim>\<open>a.pyc\<close>
  there: the scan emits three candidates with a total of 40 bytes. Cleaning the directory
  \<^verbatim>\<open>proj/__pycache__\<close> and the file \<^verbatim>\<open>proj/module.pyc\<close> removes both paths and
  reports 2 items and 30 bytes.
\<close>

theorem end_to_end_scan_then_clean:
  "candidates (events (Scanner_run tree_e2e [[''proj'']] opts_e2e now None)) =
     [([''proj'', ''__pycache__''], Pycache, 10, True),
      ([''proj'', ''module.pyc''], Pyc, 20, True),
      ([''proj'', ''__pycache__'', ''a.pyc''], Pyc, 10, True)]
   \<and> total_items (Scanner_run tree_e2e [[''proj'']] opts_e2e now None) = 3
   \<and> total_size (Scanner_run tree_e2e [[''proj'']] opts_e2e now None) = 40
   \<and> \<not> exists (disk (Cleaner_run no_faults None items_e2e tree_e2e)) [''proj'', ''__pycache__'']
   \<and> \<not> exists (disk (Cleaner_run no_faults None items_e2e tree_e2e)) [''proj'', ''module.pyc'']
   \<and> items_cleaned (Cleaner_run no_faults None items_e2e tree_e2e) = 2
   \<and> total_size_cleaned (Cleaner_run no_faults None items_e2e tree_e2e) = 30
   \<and> last (events (Cleaner_run no_faults None items_e2e tree_e2e)) =
       CleanFinished True 2 (30 / (1024 * 1024))"
  by (simp add: e2e_scan_run e2e_clean_run exists_def)

text \<open>C1 as stated fails: the scan of the example does not emit 2 candidates of 30 bytes
  in total.\<close>

theorem end_to_end_two_candidates_counterexample:
  "\<not> (length (candidates (events (Scanner_run tree_e2e [[''proj'']] opts_e2e 0 None))) = 2
      \<and> total_size (Scanner_run tree_e2e [[''proj'']] opts_e2e 0 None) = 30)"
  by (simp add: e2e_scan_run)

text \<open>
  C2 at a list of three items whose second path does not exist: \<^verbatim>\<open>os.path.isdir\<close> and
  \<^verbatim>\<open>os.path.isfile\<close> are both false, nothing is raised, and the item is counted as
  cleaned with its size. The run reports 3 items and 18 bytes and logs no error.
\<close>

theorem clean_counts_missing_path:
  "Cleaner_run no_faults None items_gone tree_gone =
     \<lparr>events =
        [Log CleanStart Info, CleanProgress 1 3 [''a.pyc''],
         Log (DeletingFile [''a.pyc'']) Info,
         CleanProgress 2 3 [''b.pyc''],
         CleanProgress 3 3 [''c.pyc''],
         Log (DeletingFile [''c.pyc'']) Info,
         Log (CleanDone 3 18) Info, CleanFinished True 3 (18 / (1024 * 1024))],
      checks = 3, disk = Dir [], total_size_cleaned = 18, items_cleaned = 3\<rparr>"
  by (simp add: clean_defs tree_gone_def items_gone_def)

text \<open>
  C3 at a directory named \<^verbatim>\<open>pkg.egg-info\<close>: the name is compared with the three
  strings \<^verbatim>\<open>"build"\<close>, \<^verbatim>\<open>"dist"\<close> and \<^verbatim>\<open>"*.egg-info"\<close>, so the scan reports the
  \<^verbatim>\<open>build\<close> directory only.
\<close>

theorem egg_info_directory_not_matched:
  "candidates (events (Scanner_run tree_egg [[''home'']] opts_build now None)) =
     [([''home'', ''build''], Build, 40, True)]"
  by (simp add: scan_defs tree_egg_def opts_build_def)

text \<open>
  C4 at a virtual environment without a file of its own: \<^verbatim>\<open>max\<close> raises
  \<^verbatim>\<open>ValueError\<close>, which only the handler of the whole run catches. The scan ends with
  \<^verbatim>\<open>success == False\<close> and never reaches \<^verbatim>\<open>old/__pycache__\<close>.
\<close>

theorem venv_without_files_aborts_scan:
  "Scanner_run tree_venv [[''home'']] opts_venv now None =
     \<lparr>events =
        [Log ScanStart Info, Log (ScanPath [''home'']) Info, Progress 2 6, Progress 3 6,
         Log (ScanError ValueError) Error, ScanFinished False 0 0],
      checks = 7, total_items = 0, total_size = 0\<rparr>"
  by (simp add: scan_defs tree_venv_def opts_venv_def)

section \<open>The size of a directory\<close>

lemma get_dir_size_bounds:
  "(\<forall>s a. n \<noteq> File s a) \<longrightarrow> (case get_dir_size n of Inl e \<Rightarrow> False | Inr s \<Rightarrow> s \<le> files_total n)"
  "tot \<le> fst (get_dir_size_loop es tot)
     \<and> fst (get_dir_size_loop es tot) \<le> tot + files_total_list es
     \<and> (snd (get_dir_size_loop es tot) = None \<or> snd (get_dir_size_loop es tot) = Some PermissionError)"
proof (induction n and es tot rule: get_dir_size_get_dir_size_loop.induct)
  case (1 es)
  then show ?case by (auto simp: swallowed_def split: prod.splits option.splits)
next
  case (7 name n es tot)
  show ?case
  proof (cases n)
    case (File s a)
    with 7(1)[of True s] show ?thesis by auto
  next
    case (Dir ds)
    with 7(2)[of False True] have "case get_dir_size n of Inl e \<Rightarrow> False | Inr s \<Rightarrow> s \<le> files_total n"
      by simp
    then obtain s where s: "get_dir_size n = Inr s" "s \<le> files_total n"
      by (auto split: sum.splits)
    with Dir 7(3)[of False True s] show ?thesis by auto
  next
    case Locked
    with 7(3)[of False True 0] show ?thesis by auto
  next
    case Denied
    then show ?thesis by simp
  next
    case Dangling
    with 7(4)[of False False] show ?thesis by auto
  qed
qed simp_all

lemma get_dir_size_exact:
  "no_denied n \<longrightarrow> (\<forall>s a. n \<noteq> File s a) \<longrightarrow> get_dir_size n = Inr (files_total n)"
  "no_denied_list es \<longrightarrow> get_dir_size_loop es tot = (tot + files_total_list es, None)"
proof (induction n and es tot rule: get_dir_size_get_dir_size_loop.induct)
  case (7 name n es tot)
  show ?case
  proof (cases n)
    case (File s a)
    with 7(1)[of True s] show ?thesis by auto
  next
    case (Dir ds)
    with 7(2)[of False True] 7(3)[of False True "files_total n"] show ?thesis by auto
  next
    case Locked
    with 7(3)[of False True 0] show ?thesis by auto
  next
    case Denied
    then show ?thesis by simp
  next
    case Dangling
    with 7(4)[of False False] show ?thesis by auto
  qed
qed simp_all

text \<open>
  C5, as the program behaves. For a directory, \<^verbatim>\<open>_get_dir_size\<close> always returns a
  number, which never exceeds the sum of the sizes of the regular files below the
  directory. It is that sum when no entry raises while its type is tested: a
  subdirectory that cannot be listed, or a dangling link, is left out alone.
\<close>

theorem get_dir_size_sums_files:
  "entry_is_dir n = Inr True \<Longrightarrow>
     (\<exists>s. get_dir_size n = Inr s \<and> s \<le> files_total n)
     \<and> (no_denied n \<longrightarrow> get_dir_size n = Inr (files_total n))"
proof -
  assume "entry_is_dir n = Inr True"
  then have nf: "\<forall>s a. n \<noteq> File s a" by auto
  with get_dir_size_bounds(1)[of n] have "\<exists>s. get_dir_size n = Inr s \<and> s \<le> files_total n"
    by (cases "get_dir_size n") auto
  moreover from nf get_dir_size_exact(1)[of n]
  have "no_denied n \<longrightarrow> get_dir_size n = Inr (files_total n)" by simp
  ultimately show ?thesis by simp
qed

theorem get_dir_size_sums_files_witness:
  "entry_is_dir tree_sizes = Inr True \<and> no_denied tree_sizes
   \<and> get_dir_size tree_sizes = Inr 7 \<and> files_total tree_sizes = 7"
  using get_dir_size_sums_files[of tree_sizes] by (simp add: tree_sizes_def)

text \<open>C5 as stated fails: an entry that raises \<^verbatim>\<open>PermissionError\<close> ends the loop of its
  directory, and the file of 5 bytes listed after it is not counted either.\<close>

theorem get_dir_size_skips_later_entries_counterexample:
  "get_dir_size tree_link \<noteq> Inr (files_total tree_link)"
  by (simp add: tree_link_def swallowed_def)

section \<open>Properties kept by every step of the scanner\<close>

lemma candidates_append: "candidates (xs @ ys) = candidates xs @ candidates ys"
  by (induction xs rule: candidates.induct) simp_all

lemma outcome_state_simps [simp]:
  "outcome_state (Inr st) = st" "outcome_state (Inl (e, st)) = st"
  by (simp_all add: outcome_state_def)

lemma step_closed_tick: "step_closed P \<Longrightarrow> P st \<Longrightarrow> P (tick st)"
  by (simp add: step_closed_def)

lemma step_closed_emit: "step_closed P \<Longrightarrow> candidates [e] = [] \<Longrightarrow> P st \<Longrightarrow> P (emit e st)"
  by (simp add: step_closed_def)

lemma step_closed_found:
  "step_closed P \<Longrightarrow> checked = (c \<noteq> Venv) \<Longrightarrow> P st \<Longrightarrow> P (found_item p c sz checked st)"
  by (simp add: step_closed_def)

lemma scan_dirs_inv:
  assumes sc: "step_closed P" and ch: "checked = (c \<noteq> Venv)"
  shows "P st \<Longrightarrow> P (outcome_state (scan_dirs fs m c checked r ds st))"
proof (induction ds arbitrary: st)
  case Nil
  then show ?case by simp
next
  case (Cons d ds)
  have "P (found_item (r @ [d]) c sz checked st)" for sz
    using sc ch Cons.prems by (rule step_closed_found)
  with Cons show ?case by (simp split: sum.splits)
qed

lemma scan_files_inv:
  assumes sc: "step_closed P" and ch: "checked = (c \<noteq> Venv)"
  shows "P st \<Longrightarrow> P (outcome_state (scan_files fs m c checked r fls st))"
proof (induction fls arbitrary: st)
  case Nil
  then show ?case by simp
next
  case (Cons f fls)
  have "P (found_item (r @ [f]) c sz checked st)" for sz
    using sc ch Cons.prems by (rule step_closed_found)
  with Cons show ?case by (simp split: sum.splits)
qed

lemma run_rules_inv:
  "(\<And>f st. f \<in> set fs \<Longrightarrow> P st \<Longrightarrow> P (outcome_state (f st))) \<Longrightarrow> P st
     \<Longrightarrow> P (outcome_state (run_rules fs st))"
proof (induction fs arbitrary: st)
  case Nil
  then show ?case by simp
next
  case (Cons f fs)
  from Cons.prems have "P (outcome_state (f st))" by simp
  with Cons show ?case by (cases "f st") auto
qed

lemma rule_venv_inv:
  assumes sc: "step_closed P" and st: "P st"
  shows "P (outcome_state (rule_venv fs opts now t st))"
proof -
  have "P (found_item r Venv sz False st)" for r sz
    using sc _ st by (rule step_closed_found) simp
  with st show ?thesis
    by (simp add: rule_venv_def split: prod.splits sum.splits)
qed

lemma check_dir_inv:
  assumes sc: "step_closed P" and st: "P st"
  shows "P (outcome_state (check_dir fs opts now t st))"
  unfolding check_dir_def
proof (rule run_rules_inv)
  fix f and s :: scanner
  assume f: "f \<in> set [rule_pycache fs opts t, rule_pyc fs opts t, rule_venv fs opts now t,
                rule_jupyter fs opts t, rule_temp fs opts t, rule_build fs opts t]"
    and s: "P s"
  have d: "P (outcome_state (scan_dirs fs m c True r ds s))" if "c \<noteq> Venv" for m c r ds
    using sc _ s by (rule scan_dirs_inv) (simp add: that)
  have fl: "P (outcome_state (scan_files fs m c True r ds s))" if "c \<noteq> Venv" for m c r ds
    using sc _ s by (rule scan_files_inv) (simp add: that)
  have v: "P (outcome_state (rule_venv fs opts now t s))"
    using sc s by (rule rule_venv_inv)
  from f consider "f = rule_pycache fs opts t" | "f = rule_pyc fs opts t"
    | "f = rule_venv fs opts now t" | "f = rule_jupyter fs opts t" | "f = rule_temp fs opts t"
    | "f = rule_build fs opts t"
    by auto
  then show "P (outcome_state (f s))"
  proof cases
    case 1 then show ?thesis using d s by (simp add: rule_pycache_def split: prod.splits)
  next
    case 2 then show ?thesis using fl s by (simp add: rule_pyc_def split: prod.splits)
  next
    case 3 then show ?thesis using v by simp
  next
    case 4 then show ?thesis using d s by (simp add: rule_jupyter_def split: prod.splits)
  next
    case 5 then show ?thesis using fl s by (simp add: rule_temp_def split: prod.splits)
  next
    case 6 then show ?thesis using d s by (simp add: rule_build_def split: prod.splits)
  qed
qed (rule st)

lemma count_walk_inv:
  assumes sc: "step_closed P"
  shows "P st \<Longrightarrow> P (snd (count_walk stop ts n st))"
proof (induction ts arbitrary: n st)
  case Nil
  then show ?case by simp
next
  case (Cons t ts)
  obtain r dirs files where t: "t = (r, dirs, files)" by (cases t)
  have "P (tick st)" using sc Cons.prems by (rule step_closed_tick)
  with Cons.IH show ?case by (simp add: t)
qed

lemma scan_walk_inv:
  assumes sc: "step_closed P"
  shows "P st \<Longrightarrow> P (outcome_state (scan_walk fs opts now stop tc ts cur st))"
proof (induction ts arbitrary: cur st)
  case Nil
  then show ?case by simp
next
  case (Cons t ts)
  obtain r dirs files where t: "t = (r, dirs, files)" by (cases t)
  let ?st2 = "if tc > 0 then emit (Progress (cur + length dirs + length files) tc) (tick st) else tick st"
  have 1: "P (tick st)" using sc Cons.prems by (rule step_closed_tick)
  have "P (emit (Progress (cur + length dirs + length files) tc) (tick st))"
    using sc _ 1 by (rule step_closed_emit) simp
  with 1 have "P ?st2" by simp
  with sc have "P (outcome_state (check_dir fs opts now (r, dirs, files) ?st2))"
    by (rule check_dir_inv)
  with Cons.IH 1 show ?case
    by (cases "check_dir fs opts now (r, dirs, files) ?st2") (auto simp: t Let_def)
qed

lemma scan_paths_inv:
  assumes sc: "step_closed P"
  shows "P st \<Longrightarrow> P (outcome_state (scan_paths fs opts now stop ps st))"
proof (induction ps arbitrary: st)
  case Nil
  then show ?case by simp
next
  case (Cons b ps)
  let ?st1 = "emit (Log (ScanPath b) Info) st"
  let ?cw = "count_walk stop (os_walk fs b) 0 ?st1"
  let ?sw = "scan_walk fs opts now stop (fst ?cw) (os_walk fs b) 0 (snd ?cw)"
  have "P ?st1" using sc _ Cons.prems by (rule step_closed_emit) simp
  with sc have "P (snd ?cw)" by (rule count_walk_inv)
  with sc have "P (outcome_state ?sw)" by (rule scan_walk_inv)
  with Cons.IH show ?case
    by (cases ?sw) (auto simp: Let_def split: prod.splits)
qed

lemma valid_paths_inv:
  assumes sc: "step_closed P"
  shows "P st \<Longrightarrow> P (snd (valid_paths fs ps acc st))"
proof (induction ps arbitrary: acc st)
  case Nil
  then show ?case by simp
next
  case (Cons p ps)
  have "P (emit (Log (PathMissing p) Warning) st)"
    using sc _ Cons.prems by (rule step_closed_emit) simp
  with Cons show ?case by simp
qed

lemma Scanner_run_inv:
  assumes sc: "step_closed P" and init: "P scanner_init"
  shows "P (Scanner_run fs roots opts now stop)"
proof -
  let ?st1 = "emit (Log ScanStart Info) scanner_init"
  obtain vs st2 where vp: "valid_paths fs roots [] ?st1 = (vs, st2)"
    by (cases "valid_paths fs roots [] ?st1")
  let ?sp = "scan_paths fs opts now stop vs st2"
  have e: "P (emit ev st)" if "candidates [ev] = []" "P st" for ev st
    using sc that by (rule step_closed_emit)
  have "P ?st1" using init by (simp add: e)
  with sc have "P (snd (valid_paths fs roots [] ?st1))" by (rule valid_paths_inv)
  then have 2: "P st2" by (simp add: vp)
  with sc have 3: "P (outcome_state ?sp)" by (rule scan_paths_inv)
  show ?thesis
  proof (cases "vs = []")
    case True
    with 2 show ?thesis
      by (simp add: Scanner_run_def scan_try_def vp e)
  next
    case False
    with 3 show ?thesis
      by (cases ?sp)
        (auto simp: Scanner_run_def scan_try_def scan_valid_def scan_except_def vp e)
  qed
qed

lemma step_closed_flags_ok: "step_closed flags_ok"
  by (simp add: step_closed_def flags_ok_def tick_def emit_def found_item_def candidates_append)

lemma step_closed_counts_ok: "step_closed counts_ok"
  by (simp add: step_closed_def counts_ok_def tick_def emit_def found_item_def candidates_append)

text \<open>In every run the counter \<^verbatim>\<open>total_items\<close> is the number of candidates emitted and
  \<^verbatim>\<open>total_size\<close> is the sum of their sizes.\<close>

lemma Scanner_run_counts_ok: "counts_ok (Scanner_run fs roots opts now stop)"
  by (rule Scanner_run_inv[OF step_closed_counts_ok]) (simp add: counts_ok_def scanner_init_def)

text \<open>
  C6: every candidate a scan emits has the flag \<^verbatim>\<open>False\<close> when its category is
  \<^verbatim>\<open>venv\<close> and \<^verbatim>\<open>True\<close> otherwise, whatever the roots, the options, the time and the
  moment of a \<^verbatim>\<open>stop()\<close>.
\<close>

theorem preselected_unless_venv:
  "(p, c, sz, checked) \<in> set (candidates (events (Scanner_run fs roots opts now stop)))
     \<Longrightarrow> checked = (c \<noteq> Venv)"
proof -
  have "flags_ok (Scanner_run fs roots opts now stop)"
    by (rule Scanner_run_inv[OF step_closed_flags_ok]) (simp add: flags_ok_def scanner_init_def)
  then show "(p, c, sz, checked) \<in> set (candidates (events (Scanner_run fs roots opts now stop)))
     \<Longrightarrow> checked = (c \<noteq> Venv)"
    by (auto simp: flags_ok_def list_all_iff)
qed

lemma stale_scan_run:
  "candidates (events (Scanner_run tree_stale [[''env'']] opts_stale 2678400 None)) =
     [([''env''], Venv, 300, False)]"
  by (simp add: scan_defs tree_stale_def opts_stale_def)

theorem preselected_unless_venv_witness:
  "([''env''], Venv, 300, False)
     \<in> set (candidates (events (Scanner_run tree_stale [[''env'']] opts_stale 2678400 None)))
   \<and> False = (Venv \<noteq> Venv)"
  using preselected_unless_venv[of "[''env'']" Venv 300 False tree_stale "[[''env'']]"
      opts_stale 2678400 None]
  by (simp add: stale_scan_run)

section \<open>The roots of a scan\<close>

lemma map_outcome_simps [simp]:
  "map_outcome f (Inr st) = Inr (f st)" "map_outcome f (Inl (e, st)) = Inl (e, f st)"
  by (simp_all add: map_outcome_def)

lemma prepend_emit: "emit e (prepend evs st) = prepend evs (emit e st)"
  by (simp add: emit_def prepend_def)

lemma prepend_tick: "tick (prepend evs st) = prepend evs (tick st)"
  by (simp add: tick_def prepend_def)

lemma prepend_running: "running stop (prepend evs st) = running stop st"
  by (simp add: running_def prepend_def split: option.splits)

lemma prepend_found_item:
  "found_item p c sz checked (prepend evs st) = prepend evs (found_item p c sz checked st)"
  by (simp add: found_item_def emit_def prepend_def)

lemma prepend_totals:
  "total_items (prepend evs st) = total_items st" "total_size (prepend evs st) = total_size st"
  by (simp_all add: prepend_def)

lemmas prepend_simps = prepend_emit prepend_tick prepend_running prepend_found_item prepend_totals

lemma scan_dirs_prepend:
  "scan_dirs fs m c checked r ds (prepend evs st) =
     map_outcome (prepend evs) (scan_dirs fs m c checked r ds st)"
  by (induction ds arbitrary: st) (simp_all add: prepend_simps split: sum.splits)

lemma scan_files_prepend:
  "scan_files fs m c checked r fls (prepend evs st) =
     map_outcome (prepend evs) (scan_files fs m c checked r fls st)"
  by (induction fls arbitrary: st) (simp_all add: prepend_simps split: sum.splits)

lemma run_rules_prepend:
  "(\<And>f st. f \<in> set fs \<Longrightarrow> f (prepend evs st) = map_outcome (prepend evs) (f st))
     \<Longrightarrow> run_rules fs (prepend evs st) = map_outcome (prepend evs) (run_rules fs st)"
proof (induction fs arbitrary: st)
  case Nil
  then show ?case by simp
next
  case (Cons f fs)
  have "f (prepend evs st) = map_outcome (prepend evs) (f st)" using Cons.prems by simp
  moreover have "run_rules fs (prepend evs s) = map_outcome (prepend evs) (run_rules fs s)" for s
    using Cons by simp
  ultimately show ?case by (cases "f st") auto
qed

lemma check_dir_prepend:
  "check_dir fs opts now t (prepend evs st) = map_outcome (prepend evs) (check_dir fs opts now t st)"
  unfolding check_dir_def
  by (rule run_rules_prepend)
    (auto simp: rule_pycache_def rule_pyc_def rule_venv_def rule_jupyter_def rule_temp_def
        rule_build_def scan_dirs_prepend scan_files_prepend prepend_simps
      split: prod.splits sum.splits)

lemma count_walk_prepend:
  "count_walk stop ts n (prepend evs st) =
     (fst (count_walk stop ts n st), prepend evs (snd (count_walk stop ts n st)))"
  by (induction ts arbitrary: n st) (auto simp: prepend_simps)

lemma scan_walk_prepend:
  "scan_walk fs opts now stop tc ts cur (prepend evs st) =
     map_outcome (prepend evs) (scan_walk fs opts now stop tc ts cur st)"
proof (induction ts arbitrary: cur st)
  case Nil
  then show ?case by simp
next
  case (Cons t ts)
  obtain r dirs files where t: "t = (r, dirs, files)" by (cases t)
  let ?st2 = "if tc > 0 then emit (Progress (cur + length dirs + length files) tc) (tick st) else tick st"
  show ?case
  proof (cases "check_dir fs opts now (r, dirs, files) ?st2")
    case (Inl x)
    then show ?thesis
      by (cases x) (auto simp: t Let_def prepend_simps check_dir_prepend)
  next
    case (Inr st3)
    have "scan_walk fs opts now stop tc ts (cur + length dirs + length files) (prepend evs st3) =
        map_outcome (prepend evs)
          (scan_walk fs opts now stop tc ts (cur + length dirs + length files) st3)"
      by (rule Cons.IH)
    with Inr show ?thesis
      by (auto simp: t Let_def prepend_simps check_dir_prepend)
  qed
qed

lemma scan_paths_prepend:
  "scan_paths fs opts now stop ps (prepend evs st) =
     map_outcome (prepend evs) (scan_paths fs opts now stop ps st)"
proof (induction ps arbitrary: st)
  case Nil
  then show ?case by simp
next
  case (Cons b ps)
  let ?cw = "count_walk stop (os_walk fs b) 0 (emit (Log (ScanPath b) Info) st)"
  show ?case
    by (cases "scan_walk fs opts now stop (fst ?cw) (os_walk fs b) 0 (snd ?cw)")
      (auto simp: Let_def prepend_simps count_walk_prepend scan_walk_prepend Cons.IH
            split: prod.splits)
qed

lemma scan_valid_prepend:
  "scan_valid fs opts now stop ps (prepend evs st) =
     map_outcome (prepend evs) (scan_valid fs opts now stop ps st)"
  by (cases "scan_paths fs opts now stop ps st")
    (auto simp: scan_valid_def scan_paths_prepend prepend_simps)

lemma valid_paths_eq:
  "valid_paths fs ps acc st =
     (acc @ filter (exists fs) ps, st\<lparr>events := events st @ missing_warnings fs ps\<rparr>)"
  by (induction ps arbitrary: acc st) (simp_all add: missing_warnings_def emit_def)


lemma events_prepend: "events (prepend evs st) = evs @ events st"
  by (simp add: prepend_def)

lemma scan_except_prepend:
  "scan_except (e, prepend evs st) = prepend evs (scan_except (e, st))"
  by (simp add: scan_except_def prepend_simps)

lemma valid_paths_of_valid:
  "valid_paths fs (filter (exists fs) roots) [] st = (filter (exists fs) roots, st)"
  by (simp add: valid_paths_eq missing_warnings_def)

lemma Scanner_run_of_valid:
  "Scanner_run fs (filter (exists fs) roots) opts now stop =
     (if filter (exists fs) roots = [] then
        emit (ScanFinished False 0 0)
          (emit (Log NoValidPaths Error) (emit (Log ScanStart Info) scanner_init))
      else
        (case scan_valid fs opts now stop (filter (exists fs) roots)
                (emit (Log ScanStart Info) scanner_init) of
           Inl x \<Rightarrow> scan_except x
         | Inr st \<Rightarrow> st))"
  by (simp add: Scanner_run_def scan_try_def valid_paths_of_valid del: valid_paths.simps)

lemma Scanner_run_of_roots:
  "Scanner_run fs roots opts now stop =
     (if filter (exists fs) roots = [] then
        emit (ScanFinished False 0 0)
          (emit (Log NoValidPaths Error)
             (prepend (Log ScanStart Info # missing_warnings fs roots) scanner_init))
      else
        (case scan_valid fs opts now stop (filter (exists fs) roots)
                (prepend (Log ScanStart Info # missing_warnings fs roots) scanner_init) of
           Inl x \<Rightarrow> scan_except x
         | Inr st \<Rightarrow> st))"
proof -
  have "(emit (Log ScanStart Info) scanner_init)
          \<lparr>events := events (emit (Log ScanStart Info) scanner_init) @ missing_warnings fs roots\<rparr>
        = prepend (Log ScanStart Info # missing_warnings fs roots) scanner_init"
    by (simp add: emit_def prepend_def scanner_init_def)
  then show ?thesis
    by (simp add: Scanner_run_def scan_try_def valid_paths_eq del: valid_paths.simps)
qed

lemma Scanner_run_events:
  "events (Scanner_run fs roots opts now stop) =
     Log ScanStart Info # missing_warnings fs roots
       @ tl (events (Scanner_run fs (filter (exists fs) roots) opts now stop))"
proof (cases "filter (exists fs) roots = []")
  case True
  then show ?thesis
    unfolding Scanner_run_of_roots[of fs roots] Scanner_run_of_valid
    by (simp add: emit_def prepend_def scanner_init_def)
next
  case False
  let ?V = "filter (exists fs) roots"
  let ?W = "missing_warnings fs roots"
  have start: "emit (Log ScanStart Info) scanner_init = prepend [Log ScanStart Info] scanner_init"
    by (simp add: emit_def prepend_def scanner_init_def)
  show ?thesis
  proof (cases "scan_valid fs opts now stop ?V scanner_init")
    case (Inl x)
    obtain e st where x: "x = (e, st)" by (cases x)
    from False Inl show ?thesis
      unfolding Scanner_run_of_roots[of fs roots] Scanner_run_of_valid start
      by (simp add: x scan_valid_prepend scan_except_prepend events_prepend)
  next
    case (Inr st)
    with False show ?thesis
      unfolding Scanner_run_of_roots[of fs roots] Scanner_run_of_valid start
      by (simp add: scan_valid_prepend events_prepend)
  qed
qed

text \<open>
  C7: a run logs the start, then a warning for each root that does not exist, in order,
  and then goes on exactly as a run on the existing roots does after its start. When no
  root exists it logs the error and emits \<^verbatim>\<open>scan_finished(False, 0, 0)\<close> without
  reading the flag or walking anything.
\<close>

theorem missing_roots_warned_and_skipped:
  "events (Scanner_run fs roots opts now stop) =
     Log ScanStart Info
       # map (\<lambda>p. Log (PathMissing p) Warning) (filter (\<lambda>p. \<not> exists fs p) roots)
       @ tl (events (Scanner_run fs (filter (exists fs) roots) opts now stop))
   \<and> (filter (exists fs) roots = [] \<longrightarrow>
        Scanner_run fs roots opts now stop =
          \<lparr>events = Log ScanStart Info # map (\<lambda>p. Log (PathMissing p) Warning) roots
                      @ [Log NoValidPaths Error, ScanFinished False 0 0],
           checks = 0, total_items = 0, total_size = 0\<rparr>)"
proof -
  have "filter (\<lambda>p. \<not> exists fs p) roots = roots" if "filter (exists fs) roots = []"
    using that by (induction roots) (auto split: if_splits)
  then have "filter (exists fs) roots = [] \<longrightarrow>
        Scanner_run fs roots opts now stop =
          \<lparr>events = Log ScanStart Info # map (\<lambda>p. Log (PathMissing p) Warning) roots
                      @ [Log NoValidPaths Error, ScanFinished False 0 0],
           checks = 0, total_items = 0, total_size = 0\<rparr>"
    unfolding Scanner_run_of_roots[of fs roots]
    by (simp add: emit_def prepend_def scanner_init_def missing_warnings_def)
  with Scanner_run_events[of fs roots opts now stop] show ?thesis
    by (simp add: missing_warnings_def)
qed

theorem missing_roots_warned_and_skipped_witness:
  "filter (exists tree_e2e) [[''nope'']] = []
   \<and> Scanner_run tree_e2e [[''nope'']] opts_e2e 0 None =
       \<lparr>events = [Log ScanStart Info, Log (PathMissing [''nope'']) Warning,
                  Log NoValidPaths Error, ScanFinished False 0 0],
        checks = 0, total_items = 0, total_size = 0\<rparr>"
  using missing_roots_warned_and_skipped[of tree_e2e "[[''nope'']]" opts_e2e 0 None]
  by (simp add: exists_def tree_e2e_def)

section \<open>Stopping a scan\<close>

lemma not_running_mono: "\<not> running stop st \<Longrightarrow> checks st \<le> checks st' \<Longrightarrow> \<not> running stop st'"
  by (auto simp: running_def split: option.splits)

lemma quiet_refl: "quiet st st"
  by (simp add: quiet_def)

lemma quiet_trans: "quiet st st' \<Longrightarrow> quiet st' st'' \<Longrightarrow> quiet st st''"
  by (simp add: quiet_def)

lemma quiet_tick: "quiet st (tick st)"
  by (simp add: quiet_def tick_def)

lemma quiet_emit: "candidates [e] = [] \<Longrightarrow> quiet st (emit e st)"
  by (simp add: quiet_def emit_def candidates_append)

lemma count_walk_stopped:
  "\<not> running stop st \<Longrightarrow> count_walk stop ts n st = (n, if ts = [] then st else tick st)"
  by (cases ts) auto

lemma scan_walk_stopped:
  "\<not> running stop st \<Longrightarrow>
     scan_walk fs opts now stop tc ts cur st = Inr (if ts = [] then st else tick st)"
  by (cases ts) auto

lemma scan_paths_stopped:
  "\<not> running stop st \<Longrightarrow>
     \<exists>st'. scan_paths fs opts now stop ps st = Inr st' \<and> quiet st st'"
proof (induction ps arbitrary: st)
  case Nil
  then show ?case by (simp add: quiet_refl)
next
  case (Cons b ps)
  let ?st1 = "emit (Log (ScanPath b) Info) st"
  let ?st2 = "if os_walk fs b = [] then ?st1 else tick ?st1"
  let ?st3 = "if os_walk fs b = [] then ?st2 else tick ?st2"
  have q1: "quiet st ?st1" by (simp add: quiet_emit)
  have q2: "quiet ?st1 ?st2" by (simp add: quiet_refl quiet_tick)
  have q3: "quiet ?st2 ?st3" by (simp add: quiet_refl quiet_tick)
  have q: "quiet st ?st3" using q1 q2 q3 by (blast intro: quiet_trans)
  have n1: "\<not> running stop ?st1"
    by (rule not_running_mono[OF Cons.prems]) (use q1 in \<open>simp add: quiet_def\<close>)
  have n2: "\<not> running stop ?st2"
    by (rule not_running_mono[OF n1]) (use q2 in \<open>simp add: quiet_def\<close>)
  have n3: "\<not> running stop ?st3"
    by (rule not_running_mono[OF n2]) (use q3 in \<open>simp add: quiet_def\<close>)
  have cw: "count_walk stop (os_walk fs b) 0 ?st1 = (0, ?st2)"
    using n1 by (simp add: count_walk_stopped)
  have sw: "scan_walk fs opts now stop 0 (os_walk fs b) 0 ?st2 = Inr ?st3"
    using n2 by (simp add: scan_walk_stopped)
  from Cons.IH[OF n3] obtain st' where
    st': "scan_paths fs opts now stop ps ?st3 = Inr st'" "quiet ?st3 st'" by blast
  have "scan_paths fs opts now stop (b # ps) st = Inr st'"
    using cw sw st'(1) by (simp del: count_walk.simps scan_walk.simps)
  moreover have "quiet st st'" using q st'(2) by (rule quiet_trans)
  ultimately show ?case by blast
qed

text \<open>
  C8: when \<^verbatim>\<open>stop()\<close> has taken effect at the moment the loop over the walk reads the
  flag, with \<open>N\<close> candidates emitted and counted so far, the rest of the run emits no
  candidate and ends with \<^verbatim>\<open>scan_finished(True, N, total_size / (1024 * 1024))\<close>.
\<close>

theorem stop_ends_scan_quietly:
  assumes "\<not> running stop st"
    and "length (candidates (events st)) = N"
    and "total_items st = N"
  shows "candidates (events (scan_resume fs opts now stop total_count ts current_count rest st))
           = candidates (events st)
         \<and> last (events (scan_resume fs opts now stop total_count ts current_count rest st))
           = ScanFinished True N (real (total_size st) / (1024 * 1024))"
proof -
  let ?st1 = "if ts = [] then st else tick st"
  have q1: "quiet st ?st1" by (simp add: quiet_refl quiet_tick)
  have n1: "\<not> running stop ?st1"
    by (rule not_running_mono[OF assms(1)]) (use q1 in \<open>simp add: quiet_def\<close>)
  from scan_paths_stopped[OF n1] obtain st' where
    st': "scan_paths fs opts now stop rest ?st1 = Inr st'" "quiet ?st1 st'" by blast
  have q: "quiet st st'" using q1 st'(2) by (rule quiet_trans)
  have "scan_resume fs opts now stop total_count ts current_count rest st =
          emit (ScanFinished True (total_items st') (real (total_size st') / (1024 * 1024)))
            (emit (Log (ScanDone (total_items st') (total_size st')) Info) st')"
    using assms(1) st'(1)
    by (simp add: scan_resume_def scan_walk_stopped scan_valid_def del: scan_walk.simps)
  with q assms(3) show ?thesis
    by (simp add: quiet_def emit_def candidates_append)
qed

text \<open>\<open>scan_resume\<close> is the rest of the run: at the first read of the flag for a path,
  and from one read of the flag to the next.\<close>

lemma scan_valid_resume:
  "(case scan_valid fs opts now stop (base_path # rest) st of
      Inl x \<Rightarrow> scan_except x
    | Inr st' \<Rightarrow> st') =
     (let st1 = emit (Log (ScanPath base_path) Info) st;
          (total_count, st2) = count_walk stop (os_walk fs base_path) 0 st1
      in scan_resume fs opts now stop total_count (os_walk fs base_path) 0 rest st2)"
  by (simp add: scan_valid_def scan_resume_def Let_def split: prod.splits sum.splits)

lemma scan_resume_step:
  "running stop st \<Longrightarrow>
   scan_resume fs opts now stop total_count ((r, dirs, files) # ts) current_count rest st =
     (let st1 = tick st;
          current_count' = current_count + length dirs + length files;
          st2 = (if total_count > 0 then emit (Progress current_count' total_count) st1
                 else st1)
      in case check_dir fs opts now (r, dirs, files) st2 of
           Inl x \<Rightarrow> scan_except x
         | Inr st3 \<Rightarrow> scan_resume fs opts now stop total_count ts current_count' rest st3)"
  by (simp add: scan_resume_def Let_def split: sum.splits)

theorem stop_ends_scan_quietly_witness:
  "\<not> running (Some 3) st_e2e \<and> length (candidates (events st_e2e)) = 2
   \<and> total_items st_e2e = 2
   \<and> candidates (events (scan_resume tree_e2e opts_e2e 0 (Some 3) 3
                            [([''proj'', ''__pycache__''], [], [''a.pyc''])] 2 [] st_e2e))
       = candidates (events st_e2e)
   \<and> last (events (scan_resume tree_e2e opts_e2e 0 (Some 3) 3
                      [([''proj'', ''__pycache__''], [], [''a.pyc''])] 2 [] st_e2e))
       = ScanFinished True 2 (real (total_size st_e2e) / (1024 * 1024))"
proof -
  have h: "\<not> running (Some 3) st_e2e" "length (candidates (events st_e2e)) = 2"
    "total_items st_e2e = 2"
    by (simp_all add: running_def st_e2e_def)
  show ?thesis
    using h stop_ends_scan_quietly[OF h, of tree_e2e opts_e2e 0 3
        "[([''proj'', ''__pycache__''], [], [''a.pyc''])]" 2 "[]"]
    by simp
qed

text \<open>The whole run of the example when \<^verbatim>\<open>stop()\<close> falls after the third read of the
  flag.\<close>

lemma e2e_stopped_run:
  "Scanner_run tree_e2e [[''proj'']] opts_e2e now (Some 3) =
     \<lparr>events =
        [Log ScanStart Info, Log (ScanPath [''proj'']) Info, Progress 2 3,
         FoundItem [''proj'', ''__pycache__''] Pycache 10 True,
         FoundItem [''proj'', ''module.pyc''] Pyc 20 True,
         Log (ScanDone 2 30) Info, ScanFinished True 2 (30 / (1024 * 1024))],
      checks = 4, total_items = 2, total_size = 30\<rparr>"
  by (simp add: scan_defs tree_e2e_def opts_e2e_def)

section \<open>Scanning again\<close>

lemma rule_venv_disabled: "\<not> venv opts \<Longrightarrow> rule_venv fs opts now t st = Inr st"
  by (simp add: rule_venv_def split: prod.splits)

lemma check_dir_disabled:
  "\<not> venv opts \<Longrightarrow> check_dir fs opts now1 t st = check_dir fs opts now2 t st"
  by (simp add: check_dir_def rule_venv_disabled split: sum.splits)

lemma scan_walk_disabled:
  assumes nv: "\<not> venv opts"
  shows "scan_walk fs opts now1 stop tc ts cur st = scan_walk fs opts now2 stop tc ts cur st"
proof (induction ts arbitrary: cur st)
  case Nil
  then show ?case by simp
next
  case (Cons t ts)
  obtain r dirs files where t: "t = (r, dirs, files)" by (cases t)
  let ?st2 = "if tc > 0 then emit (Progress (cur + length dirs + length files) tc) (tick st)
              else tick st"
  have cd: "check_dir fs opts now1 (r, dirs, files) ?st2 = check_dir fs opts now2 (r, dirs, files) ?st2"
    using nv by (rule check_dir_disabled)
  show ?case
  proof (cases "check_dir fs opts now2 (r, dirs, files) ?st2")
    case (Inl x)
    with cd show ?thesis by (simp add: t Let_def)
  next
    case (Inr st3)
    have "scan_walk fs opts now1 stop tc ts (cur + length dirs + length files) st3 =
          scan_walk fs opts now2 stop tc ts (cur + length dirs + length files) st3"
      by (rule Cons.IH)
    with cd Inr show ?thesis by (simp add: t Let_def)
  qed
qed

lemma scan_paths_disabled:
  assumes nv: "\<not> venv opts"
  shows "scan_paths fs opts now1 stop ps st = scan_paths fs opts now2 stop ps st"
proof (induction ps arbitrary: st)
  case Nil
  then show ?case by simp
next
  case (Cons b ps)
  obtain tc st2 where cw: "count_walk stop (os_walk fs b) 0 (emit (Log (ScanPath b) Info) st) = (tc, st2)"
    by (cases "count_walk stop (os_walk fs b) 0 (emit (Log (ScanPath b) Info) st)")
  have sw: "scan_walk fs opts now1 stop tc (os_walk fs b) 0 st2 =
            scan_walk fs opts now2 stop tc (os_walk fs b) 0 st2"
    using nv by (rule scan_walk_disabled)
  show ?case
  proof (cases "scan_walk fs opts now2 stop tc (os_walk fs b) 0 st2")
    case (Inl x)
    with sw cw show ?thesis by simp
  next
    case (Inr st3)
    have "scan_paths fs opts now1 stop ps st3 = scan_paths fs opts now2 stop ps st3"
      by (rule Cons.IH)
    with sw cw Inr show ?thesis by simp
  qed
qed

lemma Scanner_run_disabled:
  assumes nv: "\<not> venv opts"
  shows "Scanner_run fs roots opts now1 stop = Scanner_run fs roots opts now2 stop"
proof -
  have "scan_valid fs opts now1 stop ps st = scan_valid fs opts now2 stop ps st" for ps st
    by (simp add: scan_valid_def scan_paths_disabled[OF nv, of fs now1 stop ps st now2])
  then have "scan_try fs roots opts now1 stop = scan_try fs roots opts now2 stop"
    by (simp add: scan_try_def split: prod.splits)
  then show ?thesis by (simp add: Scanner_run_def)
qed

text \<open>
  C9, as the program behaves. The scanner only reads the tree, so a second scan meets the
  tree of the first. Two scans with the same roots and options emit the same candidates
  when the rule \<^verbatim>\<open>venv\<close> is disabled or both read the same time. The test of the rule
  \<^verbatim>\<open>venv\<close> compares the last access with \<^verbatim>\<open>time.time()\<close>.
\<close>

theorem rescan_same_candidates:
  "\<not> venv opts \<or> now1 = now2 \<Longrightarrow>
     candidates (events (Scanner_run fs roots opts now1 stop)) =
     candidates (events (Scanner_run fs roots opts now2 stop))"
  using Scanner_run_disabled[of opts fs roots now1 stop now2] by auto

theorem rescan_same_candidates_witness:
  "\<not> venv opts_e2e
   \<and> candidates (events (Scanner_run tree_e2e [[''proj'']] opts_e2e 0 None)) =
     candidates (events (Scanner_run tree_e2e [[''proj'']] opts_e2e 86400 None))"
  using rescan_same_candidates[of opts_e2e 0 86400 tree_e2e "[[''proj'']]" None]
  by (simp add: opts_e2e_def)

text \<open>C9 as stated fails: the environment of the example was last accessed 30 days before
  the first scan, which does not report it, and 31 days before the second, which does.\<close>

lemma fresh_scan_run:
  "candidates (events (Scanner_run tree_stale [[''env'']] opts_stale 2592000 None)) = []"
  by (simp add: scan_defs tree_stale_def opts_stale_def)

theorem rescan_later_counterexample:
  "candidates (events (Scanner_run tree_stale [[''env'']] opts_stale 2592000 None)) \<noteq>
   candidates (events (Scanner_run tree_stale [[''env'']] opts_stale 2678400 None))"
  by (simp add: fresh_scan_run stale_scan_run)

section \<open>The size in the finished signals\<close>

lemma emit_totals:
  "total_items (emit e st) = total_items st" "total_size (emit e st) = total_size st"
  "items_cleaned (emit e c) = items_cleaned c"
  "total_size_cleaned (emit e c) = total_size_cleaned c"
  "events (emit e w) = events w @ [e]"
  by (simp_all add: emit_def)

text \<open>
  C10: the finished signal of a run that ends in the handler of the whole run (or, for a
  scan, without a valid root) carries the total in bytes, and the finished signal of a run
  that reaches the end of its \<^verbatim>\<open>try\<close> block carries the total divided by
  \<^verbatim>\<open>1024 * 1024\<close>; a number of bytes is 1048576 times that quotient.
\<close>

theorem finished_size_units:
  "last (events (Scanner_run fs roots opts now stop)) =
     (if isl (scan_try fs roots opts now stop) \<or> filter (exists fs) roots = [] then
        ScanFinished False (total_items (Scanner_run fs roots opts now stop))
          (real (total_size (Scanner_run fs roots opts now stop)))
      else
        ScanFinished True (total_items (Scanner_run fs roots opts now stop))
          (real (total_size (Scanner_run fs roots opts now stop)) / (1024 * 1024)))
   \<and> last (events (Cleaner_run flt stop' items_to_clean fs')) =
     (if isl (clean_try flt stop' items_to_clean fs') then
        CleanFinished False (items_cleaned (Cleaner_run flt stop' items_to_clean fs'))
          (real (total_size_cleaned (Cleaner_run flt stop' items_to_clean fs')))
      else
        CleanFinished True (items_cleaned (Cleaner_run flt stop' items_to_clean fs'))
          (real (total_size_cleaned (Cleaner_run flt stop' items_to_clean fs')) / (1024 * 1024)))
   \<and> real b = 1048576 * (real b / (1024 * 1024))"
proof -
  have scan: "last (events (Scanner_run fs roots opts now stop)) =
     (if isl (scan_try fs roots opts now stop) \<or> filter (exists fs) roots = [] then
        ScanFinished False (total_items (Scanner_run fs roots opts now stop))
          (real (total_size (Scanner_run fs roots opts now stop)))
      else
        ScanFinished True (total_items (Scanner_run fs roots opts now stop))
          (real (total_size (Scanner_run fs roots opts now stop)) / (1024 * 1024)))"
  proof (cases "filter (exists fs) roots = []")
    case True
    then show ?thesis
      by (simp add: Scanner_run_def scan_try_def valid_paths_eq emit_totals scanner_init_def
            del: valid_paths.simps)
  next
    case False
    then show ?thesis
      by (cases "scan_paths fs opts now stop (filter (exists fs) roots)
                   ((emit (Log ScanStart Info) scanner_init)
                      \<lparr>events := events (emit (Log ScanStart Info) scanner_init)
                                  @ missing_warnings fs roots\<rparr>)")
        (auto simp: Scanner_run_def scan_try_def scan_valid_def scan_except_def valid_paths_eq
              emit_totals simp del: valid_paths.simps)
  qed
  have clean: "last (events (Cleaner_run flt stop' items_to_clean fs')) =
     (if isl (clean_try flt stop' items_to_clean fs') then
        CleanFinished False (items_cleaned (Cleaner_run flt stop' items_to_clean fs'))
          (real (total_size_cleaned (Cleaner_run flt stop' items_to_clean fs')))
      else
        CleanFinished True (items_cleaned (Cleaner_run flt stop' items_to_clean fs'))
          (real (total_size_cleaned (Cleaner_run flt stop' items_to_clean fs')) / (1024 * 1024)))"
    by (cases "clean_loop flt stop' (length items_to_clean) 0 items_to_clean
                 (emit (Log CleanStart Info) (cleaner_init fs'))")
      (auto simp: Cleaner_run_def clean_try_def clean_except_def emit_totals)
  show ?thesis using scan clean by simp
qed

text \<open>Both handlers can be reached with a total that is not 0.\<close>

lemma abort_scan_run:
  "Scanner_run tree_abort [[''home'']] opts_abort now None =
     \<lparr>events =
        [Log ScanStart Info, Log (ScanPath [''home'']) Info, Progress 2 4,
         FoundItem [''home'', ''module.pyc''] Pyc 20 True, Progress 3 4,
         Log (ScanError ValueError) Error, ScanFinished False 1 20],
      checks = 5, total_items = 1, total_size = 20\<rparr>"
  by (simp add: scan_defs tree_abort_def opts_abort_def)

lemma abort_clean_run:
  "Cleaner_run faults_deep None items_deep tree_deep =
     \<lparr>events =
        [Log CleanStart Info, CleanProgress 1 2 [''a.pyc''],
         Log (DeletingFile [''a.pyc'']) Info, CleanProgress 2 2 [''deep''],
         Log (DeletingDir [''deep'']) Info,
         Log (CleanError RecursionError) Error, CleanFinished False 1 5],
      checks = 2, disk = Dir [(''deep'', Dir [])], total_size_cleaned = 5, items_cleaned = 1\<rparr>"
  by (simp add: clean_defs tree_deep_def items_deep_def faults_deep_def)

theorem finished_size_units_witness:
  "last (events (Scanner_run tree_abort [[''home'']] opts_abort 0 None)) = ScanFinished False 1 20
   \<and> last (events (Scanner_run tree_e2e [[''proj'']] opts_e2e 0 None)) =
       ScanFinished True 3 (40 / (1024 * 1024))
   \<and> last (events (Cleaner_run faults_deep None items_deep tree_deep)) = CleanFinished False 1 5
   \<and> last (events (Cleaner_run no_faults None items_e2e tree_e2e)) =
       CleanFinished True 2 (30 / (1024 * 1024))
   \<and> (20::real) = 1048576 * (20 / (1024 * 1024))"
  using finished_size_units[of tree_abort "[[''home'']]" opts_abort 0 None faults_deep None
      items_deep tree_deep 20]
  by (simp add: abort_scan_run abort_clean_run e2e_scan_run e2e_clean_run)

end
